theory Spec2Isabelle
  imports Complex_Main
begin

section \<open>Python numbers\<close>

text \<open>
  Python's \<^verbatim>\<open>int\<close> is unbounded and is modelled by \<^typ>\<open>int\<close>; \<^verbatim>\<open>//\<close> on a
  positive divisor is \<open>div\<close>. Python's \<^verbatim>\<open>float\<close> is modelled by \<^typ>\<open>real\<close>: the
  arithmetic of the scripts is read as exact arithmetic, so rounding of binary
  floating point is not part of the model.

  \<^verbatim>\<open>int(x)\<close> on a float truncates toward zero.
\<close>

definition py_int :: "real \<Rightarrow> int" where
  "py_int x = (if 0 \<le> x then \<lfloor>x\<rfloor> else \<lceil>x\<rceil>)"

text \<open>\<^verbatim>\<open>range(n)\<close> and \<^verbatim>\<open>range(a, b)\<close>, as the lists a \<^verbatim>\<open>for\<close> loop runs through.\<close>

definition py_range :: "int \<Rightarrow> int list" where
  "py_range n = [0..n - 1]"

definition py_range2 :: "int \<Rightarrow> int \<Rightarrow> int list" where
  "py_range2 a b = [a..b - 1]"

datatype error = ValueError | ZeroDivisionError | IndexError

text \<open>A loop whose body may raise: the first error ends the loop.\<close>

fun for_each :: "('s \<Rightarrow> 'a \<Rightarrow> error + 's) \<Rightarrow> 's \<Rightarrow> 'a list \<Rightarrow> error + 's" where
  "for_each body s [] = Inr s"
| "for_each body s (x # xs) =
     (case body s x of Inl e \<Rightarrow> Inl e | Inr s' \<Rightarrow> for_each body s' xs)"


section \<open>The imaging library, as far as the scripts use it\<close>

text \<open>
  Both scripts draw through the Pillow library. A canvas is modelled by its header
  (mode, size, initial fill) and the ordered log of the drawing calls made on it: the
  scripts decide the calls and their arguments, the library turns them into pixels.
  Coordinates are reals, since the scripts pass floats as well as ints.
\<close>

datatype mode = Mode_L | Mode_RGB | Mode_RGBA

datatype ink = Gray int | Rgb int int int | Rgba int int int int

type_synonym rgb = "int \<times> int \<times> int"
type_synonym point = "real \<times> real"
type_synonym box = "real \<times> real \<times> real \<times> real"

datatype image = Image (img_mode: mode) (img_size: "int \<times> int") (img_fill: ink)
                       (img_log: "draw_op list")
and draw_op =
    Line "point list" ink int
  | Ellipse box ink
  | Rounded_Rectangle box int ink
  | Put_Pixel "int \<times> int" ink
  | Alpha_Composite image
  | Paste image "int \<times> int" "image option"
  | Put_Alpha image

definition log_op :: "image \<Rightarrow> draw_op \<Rightarrow> image" where
  "log_op img op = Image (img_mode img) (img_size img) (img_fill img) (img_log img @ [op])"

text \<open>
  Every canvas that comes into being is recorded, in order, in the state that the
  library calls thread through; an error leaves the record as it was when raised.
\<close>

type_synonym header = "mode \<times> (int \<times> int)"
type_synonym 'a pil = "header list \<Rightarrow> header list \<times> (error + 'a)"

definition pil_return :: "'a \<Rightarrow> 'a pil" where
  "pil_return x = (\<lambda>s. (s, Inr x))"

definition pil_bind :: "'a pil \<Rightarrow> ('a \<Rightarrow> 'b pil) \<Rightarrow> 'b pil" where
  "pil_bind m f = (\<lambda>s. case m s of (s', Inl e) \<Rightarrow> (s', Inl e) | (s', Inr x) \<Rightarrow> f x s')"

definition pil_lift :: "error + 'a \<Rightarrow> 'a pil" where
  "pil_lift r = (\<lambda>s. (s, r))"

text \<open>\<^verbatim>\<open>Image.new(mode, size, color)\<close>: a negative width or height is a ValueError.\<close>

definition Image_new :: "mode \<Rightarrow> int \<times> int \<Rightarrow> ink \<Rightarrow> image pil" where
  "Image_new m sz fill =
     (\<lambda>s. if fst sz < 0 \<or> snd sz < 0 then (s, Inl ValueError)
          else (s @ [(m, sz)], Inr (Image m sz fill [])))"

text \<open>\<^verbatim>\<open>img.convert(mode)\<close> returns a new canvas of the same size.\<close>

definition convert :: "image \<Rightarrow> mode \<Rightarrow> image pil" where
  "convert img m =
     (\<lambda>s. (s @ [(m, img_size img)], Inr (Image m (img_size img) (img_fill img) (img_log img))))"

text \<open>
  \<^verbatim>\<open>Image.alpha_composite(im1, im2)\<close> returns a new canvas: \<open>im1\<close> with \<open>im2\<close> blended
  over it. Both must be RGBA and of one size, else ValueError.
\<close>

definition alpha_composite :: "image \<Rightarrow> image \<Rightarrow> image pil" where
  "alpha_composite im1 im2 =
     (\<lambda>s. if img_mode im1 = Mode_RGBA \<and> img_mode im2 = Mode_RGBA
             \<and> img_size im1 = img_size im2
          then (s @ [(Mode_RGBA, img_size im1)], Inr (log_op im1 (Alpha_Composite im2)))
          else (s, Inl ValueError))"

text \<open>
  The drawing calls. \<^verbatim>\<open>line\<close> and \<^verbatim>\<open>putpixel\<close> take any coordinates here; \<^verbatim>\<open>ellipse\<close>
  and \<^verbatim>\<open>rounded_rectangle\<close> require a bounding box \<open>[x0, y0, x1, y1]\<close> with
  \<open>x1 \<ge> x0\<close> and \<open>y1 \<ge> y0\<close> and raise ValueError otherwise.
\<close>

definition box_ok :: "box \<Rightarrow> bool" where
  "box_ok b = (case b of (x0, y0, x1, y1) \<Rightarrow> x0 \<le> x1 \<and> y0 \<le> y1)"

definition draw_line :: "image \<Rightarrow> point list \<Rightarrow> ink \<Rightarrow> int \<Rightarrow> image" where
  "draw_line img xy fill width = log_op img (Line xy fill width)"

definition draw_ellipse :: "image \<Rightarrow> box \<Rightarrow> ink \<Rightarrow> error + image" where
  "draw_ellipse img xy fill =
     (if box_ok xy then Inr (log_op img (Ellipse xy fill)) else Inl ValueError)"

definition draw_rounded_rectangle :: "image \<Rightarrow> box \<Rightarrow> int \<Rightarrow> ink \<Rightarrow> error + image" where
  "draw_rounded_rectangle img xy radius fill =
     (if box_ok xy then Inr (log_op img (Rounded_Rectangle xy radius fill)) else Inl ValueError)"

definition putpixel :: "image \<Rightarrow> int \<times> int \<Rightarrow> ink \<Rightarrow> image" where
  "putpixel img xy v = log_op img (Put_Pixel xy v)"

text \<open>
  \<^verbatim>\<open>paste\<close> and \<^verbatim>\<open>putalpha\<close> change a canvas in place; a mask or alpha band of another
  size is a ValueError.
\<close>

definition paste :: "image \<Rightarrow> image \<Rightarrow> int \<times> int \<Rightarrow> image option \<Rightarrow> error + image" where
  "paste img im pos msk =
     (case msk of
        None \<Rightarrow> Inr (log_op img (Paste im pos None))
      | Some m \<Rightarrow> if img_size m \<noteq> img_size im then Inl ValueError
                  else Inr (log_op img (Paste im pos (Some m))))"

definition putalpha :: "image \<Rightarrow> image \<Rightarrow> error + image" where
  "putalpha img alpha =
     (if img_size alpha \<noteq> img_size img then Inl ValueError
      else Inr (log_op img (Put_Alpha alpha)))"


text \<open>Sequencing of calls that may raise, without the canvas record.\<close>

definition err_bind :: "error + 'a \<Rightarrow> ('a \<Rightarrow> error + 'b) \<Rightarrow> error + 'b" where
  "err_bind r f = (case r of Inl e \<Rightarrow> Inl e | Inr x \<Rightarrow> f x)"

text \<open>Python indexing \<^verbatim>\<open>xs[i]\<close>: a negative index counts from the end.\<close>

definition py_index :: "'a list \<Rightarrow> int \<Rightarrow> error + 'a" where
  "py_index xs i =
     (if 0 \<le> i \<and> i < int (length xs) then Inr (xs ! nat i)
      else if - int (length xs) \<le> i \<and> i < 0 then Inr (xs ! nat (int (length xs) + i))
      else Inl IndexError)"

definition math_radians :: "real \<Rightarrow> real" where
  "math_radians d = d * pi / 180"

definition ink_rgb :: "rgb \<Rightarrow> ink" where
  "ink_rgb c = (case c of (r, g, b) \<Rightarrow> Rgb r g b)"

definition ink_rgba :: "rgb \<Rightarrow> int \<Rightarrow> ink" where
  "ink_rgba c a = (case c of (r, g, b) \<Rightarrow> Rgba r g b a)"


section \<open>The pattern icon: Resources/generate\_icon.py\<close>

subsection \<open>\<^verbatim>\<open>create_gradient_background(size, color1, color2)\<close>\<close>

text \<open>
  One channel of scanline \<open>y\<close>: \<^verbatim>\<open>int(c1 + (c2 - c1) * y / size[1])\<close>. The product is an
  int, \<^verbatim>\<open>/\<close> is true division; it runs only inside \<^verbatim>\<open>for y in range(size[1])\<close>, hence
  with \<open>size[1] > y \<ge> 0\<close>.
\<close>

definition gradient_channel :: "int \<Rightarrow> int \<Rightarrow> int \<Rightarrow> int \<Rightarrow> int" where
  "gradient_channel c1 c2 y h = py_int (of_int c1 + of_int ((c2 - c1) * y) / of_int h)"

definition gradient_color :: "int \<times> int \<Rightarrow> rgb \<Rightarrow> rgb \<Rightarrow> int \<Rightarrow> rgb" where
  "gradient_color sz color1 color2 y =
     (case color1 of (r1, g1, b1) \<Rightarrow> case color2 of (r2, g2, b2) \<Rightarrow>
        (gradient_channel r1 r2 y (snd sz),
         gradient_channel g1 g2 y (snd sz),
         gradient_channel b1 b2 y (snd sz)))"

definition gradient_scanline :: "int \<times> int \<Rightarrow> rgb \<Rightarrow> rgb \<Rightarrow> image \<Rightarrow> int \<Rightarrow> image" where
  "gradient_scanline sz color1 color2 base y =
     draw_line base [(0, of_int y), (of_int (fst sz), of_int y)]
       (ink_rgb (gradient_color sz color1 color2 y)) 0"

definition create_gradient_background :: "int \<times> int \<Rightarrow> rgb \<Rightarrow> rgb \<Rightarrow> image pil" where
  "create_gradient_background sz color1 color2 =
     pil_bind (Image_new Mode_RGB sz (ink_rgb color1)) (\<lambda>base.
     pil_return (foldl (gradient_scanline sz color1 color2) base (py_range (snd sz))))"

subsection \<open>\<^verbatim>\<open>draw_pattern_circles(draw, size, color, alpha)\<close>\<close>

definition circle_at :: "real \<Rightarrow> real \<Rightarrow> real \<Rightarrow> box" where
  "circle_at x y r = (x - r, y - r, x + r, y + r)"

definition pattern_circle ::
  "int \<Rightarrow> int \<Rightarrow> real \<Rightarrow> real \<Rightarrow> ink \<Rightarrow> image \<Rightarrow> real \<Rightarrow> error + image" where
  "pattern_circle center_x center_y off r fill overlay angle =
     (let rad = math_radians angle;
          x = of_int center_x + off * cos rad;
          y = of_int center_y + off * sin rad
      in draw_ellipse overlay (circle_at x y r) fill)"

definition draw_pattern_circles :: "int \<times> int \<Rightarrow> rgb \<Rightarrow> int \<Rightarrow> image pil" where
  "draw_pattern_circles sz color alpha =
     (let width = fst sz; height = snd sz;
          center_x = width div 2; center_y = height div 2
      in pil_bind (Image_new Mode_RGBA sz (Rgba 0 0 0 0)) (\<lambda>overlay.
         let radius_base = min width height div 6;
             offset = of_int radius_base * 1.8
         in pil_lift (
           err_bind (draw_ellipse overlay
                      (circle_at (of_int center_x) (of_int center_y) (of_int radius_base))
                      (ink_rgba color alpha)) (\<lambda>overlay.
           err_bind (for_each (pattern_circle center_x center_y offset
                                 (of_int radius_base * 0.7) (ink_rgba color alpha))
                       overlay [0, 60, 120, 180, 240, 300]) (\<lambda>overlay.
           for_each (pattern_circle center_x center_y (offset * 0.6)
                       (of_int radius_base * 0.4) (ink_rgba color alpha))
             overlay [30, 90, 150, 210, 270, 330])))))"

subsection \<open>\<^verbatim>\<open>draw_connecting_lines(draw, size, color, alpha)\<close>\<close>

definition angles :: "real list" where
  "angles = [0, 60, 120, 180, 240, 300]"

definition connecting_line ::
  "int \<Rightarrow> int \<Rightarrow> int \<Rightarrow> real \<Rightarrow> rgb \<Rightarrow> int \<Rightarrow> image \<Rightarrow> int \<Rightarrow> image" where
  "connecting_line width center_x center_y offset color alpha overlay i =
     (let rad = math_radians (angles ! nat i);
          x1 = of_int center_x + offset * cos rad;
          y1 = of_int center_y + offset * sin rad;
          overlay = draw_line overlay [(of_int center_x, of_int center_y), (x1, y1)]
                      (ink_rgba color alpha) (max 3 (width div 150));
          next_angle = angles ! nat ((i + 1) mod int (length angles));
          next_rad = math_radians next_angle;
          x2 = of_int center_x + offset * cos next_rad;
          y2 = of_int center_y + offset * sin next_rad
      in draw_line overlay [(x1, y1), (x2, y2)]
           (ink_rgba color (alpha div 2)) (max 2 (width div 200)))"

definition draw_connecting_lines :: "int \<times> int \<Rightarrow> rgb \<Rightarrow> int \<Rightarrow> image pil" where
  "draw_connecting_lines sz color alpha =
     (let width = fst sz; height = snd sz;
          center_x = width div 2; center_y = height div 2
      in pil_bind (Image_new Mode_RGBA sz (Rgba 0 0 0 0)) (\<lambda>overlay.
         let radius_base = min width height div 6;
             offset = of_int radius_base * 1.8
         in pil_return (foldl (connecting_line width center_x center_y offset color alpha)
                          overlay (py_range (int (length angles))))))"

subsection \<open>\<^verbatim>\<open>create_icon(size)\<close>\<close>

text \<open>The body of the radial glow loop \<^verbatim>\<open>for i in range(20)\<close>.\<close>

definition glow_alpha :: "int \<Rightarrow> int" where
  "glow_alpha i = py_int (30 - of_int i * 1.5)"

definition glow_radius :: "int \<Rightarrow> int \<Rightarrow> int" where
  "glow_radius sz i = sz div 2 - i * 5"

definition glow_box :: "int \<Rightarrow> int \<Rightarrow> box" where
  "glow_box sz i =
     (let center_x = sz div 2; center_y = sz div 2; radius = glow_radius sz i
      in (of_int (center_x - radius), of_int (center_y - radius),
          of_int (center_x + radius), of_int (center_y + radius)))"

definition glow_step :: "int \<Rightarrow> image \<Rightarrow> int \<Rightarrow> error + image" where
  "glow_step sz glow_overlay i =
     draw_ellipse glow_overlay (glow_box sz i) (Rgba 255 255 255 (glow_alpha i))"

definition glow_loop :: "int \<Rightarrow> image \<Rightarrow> error + image" where
  "glow_loop sz glow_overlay = for_each (glow_step sz) glow_overlay (py_range 20)"

definition corner_radius :: "int \<Rightarrow> int" where
  "corner_radius sz = py_int (of_int sz * 0.2237)"

definition rounded_mask :: "int \<Rightarrow> image pil" where
  "rounded_mask sz =
     pil_bind (Image_new Mode_L (sz, sz) (Gray 0)) (\<lambda>msk.
     pil_lift (draw_rounded_rectangle msk (0, 0, of_int sz, of_int sz)
                 (corner_radius sz) (Gray 255)))"

definition create_icon :: "int \<Rightarrow> image pil" where
  "create_icon sz =
     (let gradient_start = (58, 123, 213);
          gradient_end = (88, 86, 214);
          pattern_color = (255, 255, 255)
      in pil_bind (create_gradient_background (sz, sz) gradient_start gradient_end) (\<lambda>img.
         pil_bind (convert img Mode_RGBA) (\<lambda>img.
         pil_bind (draw_connecting_lines (sz, sz) pattern_color 150) (\<lambda>lines_overlay.
         pil_bind (alpha_composite img lines_overlay) (\<lambda>img.
         pil_bind (draw_pattern_circles (sz, sz) pattern_color 230) (\<lambda>circles_overlay.
         pil_bind (alpha_composite img circles_overlay) (\<lambda>img.
         pil_bind (Image_new Mode_RGBA (sz, sz) (Rgba 0 0 0 0)) (\<lambda>glow_overlay.
         pil_bind (pil_lift (glow_loop sz glow_overlay)) (\<lambda>glow_overlay.
         pil_bind (alpha_composite img glow_overlay) (\<lambda>img.
         pil_bind (rounded_mask sz) (\<lambda>msk.
         pil_bind (Image_new Mode_RGBA (sz, sz) (Rgba 0 0 0 0)) (\<lambda>output.
         pil_bind (pil_lift (paste output img (0, 0) None)) (\<lambda>output.
         pil_lift (putalpha output msk))))))))))))))"


section \<open>The infinity icon: generate\_icon.py\<close>

subsection \<open>\<^verbatim>\<open>create_gradient_background(size, color1, color2)\<close>, the radial one\<close>

text \<open>Float division raises ZeroDivisionError on a zero divisor.\<close>

definition py_truediv :: "real \<Rightarrow> real \<Rightarrow> error + real" where
  "py_truediv a b = (if b = 0 then Inl ZeroDivisionError else Inr (a / b))"

definition blend_channel :: "int \<Rightarrow> int \<Rightarrow> real \<Rightarrow> int" where
  "blend_channel c1 c2 ratio = py_int (of_int c1 * (1 - ratio) + of_int c2 * ratio)"

definition blend :: "rgb \<Rightarrow> rgb \<Rightarrow> real \<Rightarrow> rgb" where
  "blend c1 c2 ratio =
     (case c1 of (r1, g1, b1) \<Rightarrow> case c2 of (r2, g2, b2) \<Rightarrow>
        (blend_channel r1 r2 ratio, blend_channel g1 g2 ratio, blend_channel b1 b2 ratio))"

definition radial_pixel ::
  "int \<Rightarrow> int \<Rightarrow> real \<Rightarrow> rgb \<Rightarrow> rgb \<Rightarrow> int \<Rightarrow> image \<Rightarrow> int \<Rightarrow> error + image" where
  "radial_pixel center_x center_y max_radius color1 color2 y base x =
     (let distance = sqrt (of_int ((x - center_x)\<^sup>2 + (y - center_y)\<^sup>2))
      in err_bind (py_truediv distance max_radius) (\<lambda>ratio.
         Inr (putpixel base (x, y) (ink_rgb (blend color1 color2 ratio)))))"

definition radial_row ::
  "int \<Rightarrow> int \<Rightarrow> int \<Rightarrow> real \<Rightarrow> rgb \<Rightarrow> rgb \<Rightarrow> image \<Rightarrow> int \<Rightarrow> error + image" where
  "radial_row sz center_x center_y max_radius color1 color2 base y =
     for_each (radial_pixel center_x center_y max_radius color1 color2 y) base (py_range sz)"

definition create_gradient_background_radial :: "int \<Rightarrow> rgb \<Rightarrow> rgb \<Rightarrow> image pil" where
  "create_gradient_background_radial sz color1 color2 =
     pil_bind (Image_new Mode_RGB (sz, sz) (ink_rgb color1)) (\<lambda>base.
     let center_x = sz div 2; center_y = sz div 2;
         max_radius = sqrt (of_int (center_x\<^sup>2 + center_y\<^sup>2))
     in pil_lift (for_each (radial_row sz center_x center_y max_radius color1 color2)
                    base (py_range sz)))"

subsection \<open>\<^verbatim>\<open>draw_infinity_symbol(draw, center_x, center_y, width, height, num_points)\<close>\<close>

text \<open>
  The division by \<^verbatim>\<open>num_points\<close> runs inside \<^verbatim>\<open>for i in range(num_points)\<close>, hence with
  \<open>num_points > 0\<close>; the denominator \<open>1 + sin\<^sup>2 t\<close> is at least 1.
\<close>

definition lemniscate_point :: "int \<Rightarrow> int \<Rightarrow> int \<Rightarrow> int \<Rightarrow> int \<Rightarrow> int \<Rightarrow> point" where
  "lemniscate_point center_x center_y width height num_points i =
     (let a = of_int width / 2;
          b = of_int height / 2;
          t = (2 * pi * of_int i) / of_int num_points;
          denominator = 1 + (sin t)\<^sup>2;
          x = of_int center_x + (a * cos t) / denominator;
          y = of_int center_y + (b * sin t * cos t) / denominator
      in (x, y))"

definition draw_infinity_symbol :: "int \<Rightarrow> int \<Rightarrow> int \<Rightarrow> int \<Rightarrow> int \<Rightarrow> point list" where
  "draw_infinity_symbol center_x center_y width height num_points =
     map (lemniscate_point center_x center_y width height num_points) (py_range num_points)"

subsection \<open>\<^verbatim>\<open>get_rainbow_color(position)\<close>\<close>

definition colors :: "rgb list" where
  "colors = [(255, 0, 0), (255, 127, 0), (255, 255, 0), (0, 255, 0),
             (0, 127, 255), (75, 0, 130), (148, 0, 211)]"

definition get_rainbow_color :: "real \<Rightarrow> error + rgb" where
  "get_rainbow_color position =
     (let scaled_pos = position * of_int (int (length colors) - 1);
          idx = py_int scaled_pos
      in if idx \<ge> int (length colors) - 1 then py_index colors (- 1)
         else
           let ratio = scaled_pos - of_int idx
           in err_bind (py_index colors idx) (\<lambda>c1.
              err_bind (py_index colors (idx + 1)) (\<lambda>c2.
              Inr (blend c1 c2 ratio))))"

subsection \<open>\<^verbatim>\<open>create_app_icon(output_path, size)\<close>\<close>

text \<open>
  The offsets of one thick segment, \<^verbatim>\<open>range(-line_width//2, line_width//2)\<close>: the unary
  minus binds tighter than \<^verbatim>\<open>//\<close>.
\<close>

definition stroke_offsets :: "int \<Rightarrow> int list" where
  "stroke_offsets line_width = py_range2 ((- line_width) div 2) (line_width div 2)"

definition stroke_copies :: "point \<Rightarrow> point \<Rightarrow> ink \<Rightarrow> image \<Rightarrow> int \<Rightarrow> image" where
  "stroke_copies p1 p2 color img offset =
     (case p1 of (x1, y1) \<Rightarrow> case p2 of (x2, y2) \<Rightarrow>
        let img = draw_line img [(x1, y1 + of_int offset), (x2, y2 + of_int offset)] color 3
        in draw_line img [(x1 + of_int offset, y1), (x2 + of_int offset, y2)] color 3)"

definition stroke_position :: "point list \<Rightarrow> int \<Rightarrow> real" where
  "stroke_position points i = of_int i / of_int (int (length points))"

definition stroke_segment :: "point list \<Rightarrow> int \<Rightarrow> image \<Rightarrow> int \<Rightarrow> error + image" where
  "stroke_segment points line_width img i =
     err_bind (get_rainbow_color (stroke_position points i)) (\<lambda>color.
     err_bind (py_index points i) (\<lambda>p1.
     err_bind (py_index points (i + 1)) (\<lambda>p2.
     Inr (foldl (stroke_copies p1 p2 (ink_rgb color)) img (stroke_offsets line_width)))))"

definition stroke_indices :: "point list \<Rightarrow> int list" where
  "stroke_indices points = py_range (int (length points) - 1)"

definition create_app_icon :: "int \<Rightarrow> image pil" where
  "create_app_icon sz =
     (let color1 = (147, 112, 219);
          color2 = (75, 0, 130)
      in pil_bind (create_gradient_background_radial sz color1 color2) (\<lambda>img.
         let center_x = sz div 2;
             center_y = sz div 2;
             symbol_width = py_int (of_int sz * 0.65);
             symbol_height = py_int (of_int sz * 0.3);
             points = draw_infinity_symbol center_x center_y symbol_width symbol_height 400;
             line_width = py_int (of_int sz * 0.08)
         in pil_bind (pil_lift (for_each (stroke_segment points line_width) img
                                  (stroke_indices points))) (\<lambda>img.
            pil_bind (rounded_mask sz) (\<lambda>msk.
            pil_bind (Image_new Mode_RGBA (sz, sz) (Rgba 0 0 0 0)) (\<lambda>output.
            pil_bind (pil_lift (paste output img (0, 0) None)) (\<lambda>output.
            pil_bind (pil_lift (putalpha output msk)) (\<lambda>output.
            pil_bind (Image_new Mode_RGB (sz, sz) (Rgb 255 255 255)) (\<lambda>final.
            pil_lift (paste final output (0, 0) (Some output))))))))))"


section \<open>Vocabulary of the statements\<close>

text \<open>The header of a canvas, as it is recorded when the canvas comes into being.\<close>

definition header_of :: "image \<Rightarrow> header" where
  "header_of img = (img_mode img, img_size img)"

text \<open>
  The glow overlay as \<^verbatim>\<open>create_icon\<close> allocates it, and the canvases one run of
  \<^verbatim>\<open>create_icon\<close> brings into being, in order: up to the glow loop, and in all.
\<close>

definition glow_canvas :: "int \<Rightarrow> image" where
  "glow_canvas sz = Image Mode_RGBA (sz, sz) (Rgba 0 0 0 0) []"

definition icon_record_prefix :: "int \<Rightarrow> header list" where
  "icon_record_prefix sz =
     [(Mode_RGB, (sz, sz)), (Mode_RGBA, (sz, sz)), (Mode_RGBA, (sz, sz)), (Mode_RGBA, (sz, sz)),
      (Mode_RGBA, (sz, sz)), (Mode_RGBA, (sz, sz)), (Mode_RGBA, (sz, sz))]"

definition icon_record :: "int \<Rightarrow> header list" where
  "icon_record sz = icon_record_prefix sz @
     [(Mode_RGBA, (sz, sz)), (Mode_L, (sz, sz)), (Mode_RGBA, (sz, sz))]"

text \<open>
  A channel value lies between two others; a colour lies channel by channel between two
  colours.
\<close>

definition channel_between :: "int \<Rightarrow> int \<Rightarrow> int \<Rightarrow> bool" where
  "channel_between x a b = (min a b \<le> x \<and> x \<le> max a b)"

definition color_between :: "rgb \<Rightarrow> rgb \<Rightarrow> rgb \<Rightarrow> bool" where
  "color_between c c1 c2 =
     (case c of (r, g, b) \<Rightarrow> case c1 of (r1, g1, b1) \<Rightarrow> case c2 of (r2, g2, b2) \<Rightarrow>
        channel_between r r1 r2 \<and> channel_between g g1 g2 \<and> channel_between b b1 b2)"


text \<open>
  The points \<^verbatim>\<open>create_app_icon\<close> samples at size 1024: centre \<open>1024 // 2\<close>, symbol width
  \<open>int(1024 * 0.65) = 665\<close>, height \<open>int(1024 * 0.3) = 307\<close>, 400 points.
\<close>

definition icon_1024_points :: "point list" where
  "icon_1024_points = draw_infinity_symbol 512 512 665 307 400"

text \<open>
  From \<open>x\<close> to \<open>x'\<close> a channel moves, weakly, in the direction from \<open>a\<close> to \<open>b\<close>; and
  so for colours, channel by channel.
\<close>

definition channel_monotone :: "int \<Rightarrow> int \<Rightarrow> int \<Rightarrow> int \<Rightarrow> bool" where
  "channel_monotone x x' a b = (if a \<le> b then x \<le> x' else x' \<le> x)"

definition color_monotone :: "rgb \<Rightarrow> rgb \<Rightarrow> rgb \<Rightarrow> rgb \<Rightarrow> bool" where
  "color_monotone c c' c1 c2 =
     (case c of (r, g, b) \<Rightarrow> case c' of (r', g', b') \<Rightarrow>
      case c1 of (r1, g1, b1) \<Rightarrow> case c2 of (r2, g2, b2) \<Rightarrow>
        channel_monotone r r' r1 r2 \<and> channel_monotone g g' g1 g2 \<and> channel_monotone b b' b1 b2)"



text \<open>
  Every recorded canvas is a square of side \<open>sz\<close>; and the canvases one run of
  \<^verbatim>\<open>create_app_icon\<close> brings into being, in order.
\<close>

definition square_record :: "int \<Rightarrow> header list \<Rightarrow> bool" where
  "square_record sz s = list_all (\<lambda>h. snd h = (sz, sz)) s"

definition app_icon_record :: "int \<Rightarrow> header list" where
  "app_icon_record sz =
     [(Mode_RGB, (sz, sz)), (Mode_L, (sz, sz)), (Mode_RGBA, (sz, sz)), (Mode_RGB, (sz, sz))]"


section \<open>Basic facts\<close>

lemma py_int_of_int: "py_int (of_int k) = k"
  by (simp add: py_int_def)

lemma py_int_mono:
  assumes "x \<le> y"
  shows "py_int x \<le> py_int y"
proof (cases "0 \<le> x")
  case True
  then have "0 \<le> y" using assms by simp
  then show ?thesis using True assms by (simp add: py_int_def floor_mono)
next
  case False
  show ?thesis
  proof (cases "0 \<le> y")
    case True
    have "\<lceil>x\<rceil> \<le> 0" using False by simp
    moreover have "0 \<le> \<lfloor>y\<rfloor>" using True by simp
    ultimately have "\<lceil>x\<rceil> \<le> \<lfloor>y\<rfloor>" by (rule order_trans)
    then show ?thesis using True False by (simp add: py_int_def)
  next
    case y: False
    then show ?thesis using False assms by (simp add: py_int_def ceiling_mono)
  qed
qed

lemma py_int_between:
  assumes "of_int lo \<le> x" "x \<le> of_int hi"
  shows "lo \<le> py_int x \<and> py_int x \<le> hi"
  using py_int_mono[OF assms(1)] py_int_mono[OF assms(2)] by (simp add: py_int_of_int)

lemma py_range_20: "py_range 20 = [0,1,2,3,4,5,6,7,8,9,10,11,12,13,14,15,16,17,18,19]"
  by (simp add: py_range_def upto_rec1 upto.simps)


lemma header_of_log_op: "header_of (log_op img op) = header_of img"
  by (simp add: header_of_def log_op_def)

lemma img_log_log_op: "img_log (log_op img op) = img_log img @ [op]"
  by (simp add: log_op_def)

lemma header_of_draw_line: "header_of (draw_line img xy fill w) = header_of img"
  by (simp add: draw_line_def header_of_log_op)

lemma header_of_foldl:
  assumes "\<And>s x. header_of (f s x) = header_of s"
  shows "header_of (foldl f s xs) = header_of s"
  by (induction xs arbitrary: s) (simp_all add: assms)

lemma for_each_header:
  assumes "\<And>s x s'. body s x = Inr s' \<Longrightarrow> header_of s' = header_of s"
    and "for_each body s xs = Inr t"
  shows "header_of t = header_of s"
  using assms(2)
proof (induction xs arbitrary: s)
  case Nil
  then show ?case by simp
next
  case (Cons x xs)
  then obtain s' where b: "body s x = Inr s'" and r: "for_each body s' xs = Inr t"
    by (auto split: sum.splits)
  from Cons.IH[OF r] assms(1)[OF b] show ?case by simp
qed

lemma for_each_total:
  assumes "\<And>s x. x \<in> set xs \<Longrightarrow> body s x = Inr (f s x)"
  shows "for_each body s xs = Inr (foldl f s xs)"
  using assms by (induction xs arbitrary: s) simp_all

lemma for_each_fails:
  assumes "\<And>s x. x \<in> set xs \<Longrightarrow> body s x = Inr (f s x)"
    and "\<And>s. body s y = Inl e"
  shows "for_each body s (xs @ y # ys) = Inl e"
  using assms by (induction xs arbitrary: s) simp_all

lemma draw_ellipse_header: "draw_ellipse img b fill = Inr img' \<Longrightarrow> header_of img' = header_of img"
  by (auto simp: draw_ellipse_def header_of_log_op split: if_splits)

lemma set_py_range: "set (py_range n) = {0..n - 1}"
  by (simp add: py_range_def)

lemma length_py_range: "length (py_range n) = nat n"
  by (simp add: py_range_def)

lemma nth_py_range: "k < nat n \<Longrightarrow> py_range n ! k = int k"
  by (simp add: py_range_def)

lemma py_range_eq_map: "py_range n = map int [0..<nat n]"
  by (rule nth_equalityI) (simp_all add: length_py_range nth_py_range)

subsection \<open>The stages of the pattern icon\<close>

lemma create_gradient_background_run:
  "create_gradient_background (w, h) c1 c2 s =
     (if w < 0 \<or> h < 0 then (s, Inl ValueError)
      else (s @ [(Mode_RGB, (w, h))],
            Inr (foldl (gradient_scanline (w, h) c1 c2) (Image Mode_RGB (w, h) (ink_rgb c1) []) (py_range h))))"
  by (simp add: create_gradient_background_def pil_bind_def Image_new_def pil_return_def)

lemma header_of_gradient:
  "header_of (foldl (gradient_scanline sz c1 c2) base ys) = header_of base"
  by (rule header_of_foldl) (simp add: gradient_scanline_def header_of_draw_line)

lemma draw_connecting_lines_run:
  assumes "0 \<le> w" "0 \<le> h"
  shows "\<exists>img. draw_connecting_lines (w, h) c a s = (s @ [(Mode_RGBA, (w, h))], Inr img)
     \<and> header_of img = (Mode_RGBA, (w, h))"
proof -
  have "header_of (foldl (connecting_line w cx cy off c a) base xs) = header_of base" for cx cy off base xs
    by (rule header_of_foldl) (simp add: connecting_line_def Let_def header_of_draw_line)
  then show ?thesis using assms
    by (simp add: draw_connecting_lines_def Let_def pil_bind_def Image_new_def pil_return_def header_of_def)
qed

lemma draw_connecting_lines_neg:
  "w < 0 \<or> h < 0 \<Longrightarrow> draw_connecting_lines (w, h) c a s = (s, Inl ValueError)"
  by (auto simp add: draw_connecting_lines_def Let_def pil_bind_def Image_new_def)

lemma pattern_circle_ok:
  "0 \<le> r \<Longrightarrow> pattern_circle cx cy off r fill ov ang =
     Inr (log_op ov (Ellipse (circle_at (of_int cx + off * cos (math_radians ang))
                               (of_int cy + off * sin (math_radians ang)) r) fill))"
  by (simp add: pattern_circle_def Let_def draw_ellipse_def box_ok_def circle_at_def)

lemma draw_pattern_circles_neg:
  "w < 0 \<or> h < 0 \<Longrightarrow> draw_pattern_circles (w, h) c a s = (s, Inl ValueError)"
  by (auto simp add: draw_pattern_circles_def Let_def pil_bind_def Image_new_def)

lemma pattern_circles_loop:
  assumes "0 \<le> r"
  shows "\<exists>o2. for_each (pattern_circle cx cy off r fill) o1 xs = Inr o2 \<and> header_of o2 = header_of o1"
proof -
  define f where "f = (\<lambda>ov ang. log_op ov (Ellipse (circle_at (of_int cx + off * cos (math_radians ang))
                               (of_int cy + off * sin (math_radians ang)) r) fill))"
  have "for_each (pattern_circle cx cy off r fill) o1 xs = Inr (foldl f o1 xs)"
    by (rule for_each_total) (simp add: pattern_circle_ok[OF assms] f_def)
  moreover have "header_of (foldl f o1 xs) = header_of o1"
    by (rule header_of_foldl) (simp add: f_def header_of_log_op)
  ultimately show ?thesis by simp
qed

lemma draw_pattern_circles_run:
  assumes "0 \<le> w" "0 \<le> h"
  shows "\<exists>img. draw_pattern_circles (w, h) c a s = (s @ [(Mode_RGBA, (w, h))], Inr img)
     \<and> header_of img = (Mode_RGBA, (w, h))"
proof -
  let ?rb = "min w h div 6"
  let ?ov = "Image Mode_RGBA (w, h) (Rgba 0 0 0 0) []"
  have "0 \<le> min w h" using assms by simp
  then have rb: "0 \<le> ?rb" by (simp add: pos_imp_zdiv_nonneg_iff)
  have h0: "header_of ?ov = (Mode_RGBA, (w, h))" by (simp add: header_of_def)
  obtain o1 where e1: "draw_ellipse ?ov (circle_at (of_int (w div 2)) (of_int (h div 2)) (of_int ?rb))
                         (ink_rgba c a) = Inr o1" and h1: "header_of o1 = header_of ?ov"
    using rb by (simp add: draw_ellipse_def box_ok_def circle_at_def header_of_log_op)
  have r7: "(0::real) \<le> of_int ?rb * 0.7" and r4: "(0::real) \<le> of_int ?rb * 0.4"
    using rb by simp_all
  obtain o2 where e2: "for_each (pattern_circle (w div 2) (h div 2) (of_int ?rb * 1.8)
                                 (of_int ?rb * 0.7) (ink_rgba c a))
                       o1 [0, 60, 120, 180, 240, 300] = Inr o2" and h2: "header_of o2 = header_of o1"
    using pattern_circles_loop[OF r7] by blast
  obtain o3 where e3: "for_each (pattern_circle (w div 2) (h div 2) (of_int ?rb * 1.8 * 0.6)
                                 (of_int ?rb * 0.4) (ink_rgba c a))
                       o2 [30, 90, 150, 210, 270, 330] = Inr o3" and h3: "header_of o3 = header_of o2"
    using pattern_circles_loop[OF r4] by blast
  have nn: "\<not> (w < 0 \<or> h < 0)" using assms by simp
  have "draw_pattern_circles (w, h) c a s = (s @ [(Mode_RGBA, (w, h))], Inr o3)"
    unfolding draw_pattern_circles_def Let_def pil_bind_def Image_new_def pil_lift_def err_bind_def
    by (simp only: nn if_False fst_conv snd_conv prod.case sum.case e1 e2 e3)
  then show ?thesis using h0 h1 h2 h3 by simp
qed

lemma glow_step_ok:
  "0 \<le> glow_radius sz i \<Longrightarrow> glow_step sz g i =
     Inr (log_op g (Ellipse (glow_box sz i) (Rgba 255 255 255 (glow_alpha i))))"
  by (simp add: glow_step_def draw_ellipse_def box_ok_def glow_box_def Let_def)

lemma glow_step_bad:
  "glow_radius sz i < 0 \<Longrightarrow> glow_step sz g i = Inl ValueError"
  by (simp add: glow_step_def draw_ellipse_def box_ok_def glow_box_def Let_def)

lemma foldl_log_op:
  "foldl (\<lambda>im x. log_op im (g x)) img xs =
     Image (img_mode img) (img_size img) (img_fill img) (img_log img @ map g xs)"
  by (induction xs arbitrary: img) (simp_all add: log_op_def)

lemma glow_loop_ok:
  assumes "190 \<le> sz"
  shows "glow_loop sz g = Inr (Image (img_mode g) (img_size g) (img_fill g)
           (img_log g @ map (\<lambda>i. Ellipse (glow_box sz i) (Rgba 255 255 255 (glow_alpha i))) (py_range 20)))"
proof -
  have "for_each (glow_step sz) g (py_range 20) =
        Inr (foldl (\<lambda>im i. log_op im (Ellipse (glow_box sz i) (Rgba 255 255 255 (glow_alpha i)))) g (py_range 20))"
  proof (rule for_each_total)
    fix s x assume "x \<in> set (py_range 20)"
    then have "0 \<le> x" "x \<le> 19" by (simp_all add: set_py_range)
    then have "0 \<le> glow_radius sz x" using assms by (simp add: glow_radius_def)
    then show "glow_step sz s x = Inr (log_op s (Ellipse (glow_box sz x) (Rgba 255 255 255 (glow_alpha x))))"
      by (rule glow_step_ok)
  qed
  then show ?thesis by (simp add: glow_loop_def foldl_log_op)
qed

lemma glow_loop_header: "glow_loop sz g = Inr g' \<Longrightarrow> header_of g' = header_of g"
  unfolding glow_loop_def
  by (rule for_each_header[where body="glow_step sz"]) (auto simp: glow_step_def dest: draw_ellipse_header)

lemma rounded_mask_run:
  "0 \<le> sz \<Longrightarrow> \<exists>m. rounded_mask sz s = (s @ [(Mode_L, (sz, sz))], Inr m) \<and> header_of m = (Mode_L, (sz, sz))"
  by (simp add: rounded_mask_def pil_bind_def Image_new_def pil_lift_def draw_rounded_rectangle_def
      box_ok_def header_of_def log_op_def)

lemma rounded_mask_neg:
  "sz < 0 \<Longrightarrow> rounded_mask sz s = (s, Inl ValueError)"
  by (simp add: rounded_mask_def pil_bind_def Image_new_def)



lemma create_gradient_background_ok:
  assumes "0 \<le> w" "0 \<le> h"
  shows "\<exists>img. create_gradient_background (w, h) c1 c2 s = (s @ [(Mode_RGB, (w, h))], Inr img)
           \<and> header_of img = (Mode_RGB, (w, h))"
  using assms by (simp add: create_gradient_background_run header_of_gradient) (simp add: header_of_def)

lemma convert_run:
  "\<exists>img'. convert img m s = (s @ [(m, img_size img)], Inr img') \<and> header_of img' = (m, img_size img)"
  by (simp add: convert_def header_of_def)

lemma alpha_composite_run:
  assumes "header_of im1 = (Mode_RGBA, sz)" "header_of im2 = (Mode_RGBA, sz)"
  shows "\<exists>img'. alpha_composite im1 im2 s = (s @ [(Mode_RGBA, sz)], Inr img')
           \<and> header_of img' = (Mode_RGBA, sz)"
  using assms by (simp add: alpha_composite_def header_of_def log_op_def)

lemma Image_new_run:
  assumes "0 \<le> w" "0 \<le> h"
  shows "Image_new m (w, h) fill s = (s @ [(m, (w, h))], Inr (Image m (w, h) fill []))"
  using assms by (simp add: Image_new_def)

lemma paste_None_run: "\<exists>img'. paste img im pos None = Inr img' \<and> header_of img' = header_of img"
  by (simp add: paste_def header_of_log_op)

lemma paste_Some_run:
  assumes "img_size m = img_size im"
  shows "\<exists>img'. paste img im pos (Some m) = Inr img' \<and> header_of img' = header_of img"
  using assms by (simp add: paste_def header_of_log_op)

lemma putalpha_run:
  assumes "img_size a = img_size img"
  shows "\<exists>img'. putalpha img a = Inr img' \<and> header_of img' = header_of img"
  using assms by (simp add: putalpha_def header_of_log_op)

lemma create_icon_run:
  assumes sz: "0 \<le> sz"
  shows "\<exists>out. create_icon sz s =
           (case glow_loop sz (glow_canvas sz) of
              Inl e \<Rightarrow> (s @ icon_record_prefix sz, Inl e)
            | Inr g \<Rightarrow> (s @ icon_record sz, Inr out))
         \<and> header_of out = (Mode_RGBA, (sz, sz))"
proof -
  obtain i1 where s1: "create_gradient_background (sz, sz) (58, 123, 213) (88, 86, 214) s
                       = (s @ [(Mode_RGB, (sz, sz))], Inr i1)"
    and h1: "header_of i1 = (Mode_RGB, (sz, sz))"
    using create_gradient_background_ok[OF sz sz] by blast
  let ?s1 = "s @ [(Mode_RGB, (sz, sz))]"
  obtain i2 where s2: "convert i1 Mode_RGBA ?s1 = (?s1 @ [(Mode_RGBA, (sz, sz))], Inr i2)"
    and h2: "header_of i2 = (Mode_RGBA, (sz, sz))"
    using convert_run[of i1 Mode_RGBA ?s1] h1 by (auto simp: header_of_def)
  let ?s2 = "?s1 @ [(Mode_RGBA, (sz, sz))]"
  obtain lo where s3: "draw_connecting_lines (sz, sz) (255, 255, 255) 150 ?s2
                       = (?s2 @ [(Mode_RGBA, (sz, sz))], Inr lo)"
    and h3: "header_of lo = (Mode_RGBA, (sz, sz))"
    using draw_connecting_lines_run[OF sz sz] by blast
  let ?s3 = "?s2 @ [(Mode_RGBA, (sz, sz))]"
  obtain i4 where s4: "alpha_composite i2 lo ?s3 = (?s3 @ [(Mode_RGBA, (sz, sz))], Inr i4)"
    and h4: "header_of i4 = (Mode_RGBA, (sz, sz))"
    using alpha_composite_run[OF h2 h3] by blast
  let ?s4 = "?s3 @ [(Mode_RGBA, (sz, sz))]"
  obtain co where s5: "draw_pattern_circles (sz, sz) (255, 255, 255) 230 ?s4
                       = (?s4 @ [(Mode_RGBA, (sz, sz))], Inr co)"
    and h5: "header_of co = (Mode_RGBA, (sz, sz))"
    using draw_pattern_circles_run[OF sz sz] by blast
  let ?s5 = "?s4 @ [(Mode_RGBA, (sz, sz))]"
  obtain i6 where s6: "alpha_composite i4 co ?s5 = (?s5 @ [(Mode_RGBA, (sz, sz))], Inr i6)"
    and h6: "header_of i6 = (Mode_RGBA, (sz, sz))"
    using alpha_composite_run[OF h4 h5] by blast
  let ?s6 = "?s5 @ [(Mode_RGBA, (sz, sz))]"
  have s7: "Image_new Mode_RGBA (sz, sz) (Rgba 0 0 0 0) ?s6
            = (?s6 @ [(Mode_RGBA, (sz, sz))], Inr (glow_canvas sz))"
    unfolding glow_canvas_def by (rule Image_new_run[OF sz sz])
  let ?s7 = "?s6 @ [(Mode_RGBA, (sz, sz))]"
  have pre: "?s7 = s @ icon_record_prefix sz" by (simp add: icon_record_prefix_def)
  show ?thesis
  proof (cases "glow_loop sz (glow_canvas sz)")
    case (Inl e)
    have "create_icon sz s = (?s7, Inl e)"
      unfolding create_icon_def Let_def pil_bind_def pil_lift_def
      by (simp only: s1 s2 s3 s4 s5 s6 s7 Inl prod.case sum.case)
    then show ?thesis using Inl pre h6 by auto
  next
    case (Inr g)
    have hg: "header_of g = (Mode_RGBA, (sz, sz))"
      using glow_loop_header[OF Inr] by (simp add: glow_canvas_def header_of_def)
    obtain i8 where s8: "alpha_composite i6 g ?s7 = (?s7 @ [(Mode_RGBA, (sz, sz))], Inr i8)"
      and h8: "header_of i8 = (Mode_RGBA, (sz, sz))"
      using alpha_composite_run[OF h6 hg] by blast
    let ?s8 = "?s7 @ [(Mode_RGBA, (sz, sz))]"
    obtain m where s9: "rounded_mask sz ?s8 = (?s8 @ [(Mode_L, (sz, sz))], Inr m)"
      and h9: "header_of m = (Mode_L, (sz, sz))"
      using rounded_mask_run[OF sz] by blast
    let ?s9 = "?s8 @ [(Mode_L, (sz, sz))]"
    let ?o = "Image Mode_RGBA (sz, sz) (Rgba 0 0 0 0) []"
    have s10: "Image_new Mode_RGBA (sz, sz) (Rgba 0 0 0 0) ?s9
               = (?s9 @ [(Mode_RGBA, (sz, sz))], Inr ?o)"
      by (rule Image_new_run[OF sz sz])
    let ?s10 = "?s9 @ [(Mode_RGBA, (sz, sz))]"
    obtain o1 where p1: "paste ?o i8 (0, 0) None = Inr o1" and ho1: "header_of o1 = header_of ?o"
      using paste_None_run by blast
    have "img_size m = img_size o1" using h9 ho1 by (simp add: header_of_def)
    then obtain o2 where p2: "putalpha o1 m = Inr o2" and ho2: "header_of o2 = header_of o1"
      using putalpha_run by blast
    have "create_icon sz s = (?s10, Inr o2)"
      unfolding create_icon_def Let_def pil_bind_def pil_lift_def
      by (simp only: s1 s2 s3 s4 s5 s6 s7 s8 s9 s10 p1 p2 Inr prod.case sum.case)
    moreover have "?s10 = s @ icon_record sz" by (simp add: icon_record_def icon_record_prefix_def)
    moreover have "header_of o2 = (Mode_RGBA, (sz, sz))" using ho1 ho2 by (simp add: header_of_def)
    ultimately show ?thesis using Inr by auto
  qed
qed

lemma create_icon_neg: "sz < 0 \<Longrightarrow> create_icon sz s = (s, Inl ValueError)"
  by (simp add: create_icon_def create_gradient_background_run pil_bind_def)



lemma glow_alpha_eq:
  assumes "0 \<le> i" "i \<le> 20"
  shows "glow_alpha i = (60 - 3 * i) div 2"
proof -
  have "(30::real) - of_int i * 1.5 = of_int (60 - 3 * i) / 2" by simp
  moreover have "(0::real) \<le> of_int (60 - 3 * i) / 2" using assms by simp
  ultimately show ?thesis unfolding glow_alpha_def py_int_def
    by (simp only: if_True floor_divide_of_int_eq[of _ 2, simplified])
qed


section \<open>The radial glow\<close>

text \<open>
  C1. Running \<^verbatim>\<open>create_icon(20)\<close>, as \<^verbatim>\<open>main\<close> does for \<^verbatim>\<open>patterns-20.png\<close>, does
  not complete: the gradient, the two pattern overlays and the glow canvas are made,
  and then the glow loop asks at \<open>i = 3\<close> for a circle of radius \<open>20 // 2 - 3 * 5 = -5\<close>,
  that is for an ellipse in the box \<open>[15, 15, 5, 5]\<close>, whose second corner lies before
  its first. The drawing call raises ValueError, and no image is returned.
\<close>

theorem create_icon_20_raises:
  "glow_radius 20 3 = - 5 \<and> glow_box 20 3 = (15, 15, 5, 5) \<and> \<not> box_ok (glow_box 20 3)
   \<and> create_icon 20 [] = (icon_record_prefix 20, Inl ValueError)"
proof -
  have g: "glow_loop 20 (glow_canvas 20) = Inl ValueError"
    by (simp add: glow_loop_def py_range_20 glow_step_def draw_ellipse_def glow_box_def
        glow_radius_def box_ok_def)
  have "create_icon 20 [] = (icon_record_prefix 20, Inl ValueError)"
    using create_icon_run[of 20 "[]"] by (simp add: g)
  then show ?thesis by (simp add: glow_radius_def glow_box_def box_ok_def)
qed

text \<open>
  C4, as the claim states it, fails: the alpha of the glow circles does not fall by a
  fixed step. From the first circle to the second it falls by 2, from the second to
  the third by 1.
\<close>

theorem glow_alpha_step_not_constant:
  "glow_alpha 0 - glow_alpha 1 \<noteq> glow_alpha 1 - glow_alpha 2"
  by (simp add: glow_alpha_def py_int_def)

text \<open>
  C4, amended. The glow loop runs over \<open>i = 0, \<dots>, 19\<close>. Circle \<open>i\<close> is the ellipse in the
  square box around the canvas centre \<open>(size // 2, size // 2)\<close> with radius
  \<open>size // 2 - 5 i\<close>, so the radius falls by 5 from each circle to the next. The alpha
  is \<open>int(30 - 1.5 i)\<close>: it falls by 2 after an even \<open>i\<close> and by 1 after an odd one.
  When no radius is negative (\<open>size \<ge> 190\<close>) the loop draws exactly these 20
  circles, in this order, on the glow overlay.
\<close>

theorem glow_circles:
  "(0 \<le> i \<and> i < 19 \<longrightarrow>
      glow_radius sz i - glow_radius sz (i + 1) = 5
      \<and> glow_alpha i - glow_alpha (i + 1) = (if even i then 2 else 1))
   \<and> glow_box sz i = circle_at (of_int (sz div 2)) (of_int (sz div 2)) (of_int (glow_radius sz i))
   \<and> (190 \<le> sz \<longrightarrow>
        glow_loop sz g = Inr (Image (img_mode g) (img_size g) (img_fill g)
          (img_log g @ map (\<lambda>i. Ellipse (glow_box sz i) (Rgba 255 255 255 (glow_alpha i)))
                         (py_range 20))))
   \<and> length (py_range 20) = 20"
proof -
  have a: "glow_alpha i - glow_alpha (i + 1) = (if even i then 2 else 1)" if "0 \<le> i" "i < 19"
  proof -
    have "glow_alpha i = (60 - 3 * i) div 2" "glow_alpha (i + 1) = (60 - 3 * (i + 1)) div 2"
      using that by (simp_all add: glow_alpha_eq)
    then show ?thesis by presburger
  qed
  have b: "glow_box sz i
           = circle_at (of_int (sz div 2)) (of_int (sz div 2)) (of_int (glow_radius sz i))"
    by (simp add: glow_box_def circle_at_def Let_def)
  show ?thesis
    using a b glow_loop_ok[of sz g] by (simp add: glow_radius_def length_py_range)
qed

theorem glow_circles_witness:
  "glow_radius 1024 0 - glow_radius 1024 1 = 5
   \<and> glow_alpha 0 - glow_alpha 1 = 2
   \<and> glow_loop 1024 (glow_canvas 1024)
       = Inr (Image Mode_RGBA (1024, 1024) (Rgba 0 0 0 0)
               (map (\<lambda>i. Ellipse (glow_box 1024 i) (Rgba 255 255 255 (glow_alpha i)))
                    (py_range 20)))"
  using glow_circles[of 0 1024 "glow_canvas 1024"] by (simp add: glow_canvas_def)


section \<open>The rainbow interpolator\<close>


lemma length_colors: "length colors = 7"
  by (simp add: colors_def)

lemma py_int_floor: "0 \<le> x \<Longrightarrow> py_int x = \<lfloor>x\<rfloor>"
  by (simp add: py_int_def)

lemma blend_channel_between:
  assumes "0 \<le> t" "t \<le> 1"
  shows "channel_between (blend_channel c1 c2 t) c1 c2"
proof -
  let ?v = "of_int c1 * (1 - t) + of_int c2 * t :: real"
  have lo: "of_int (min c1 c2) \<le> ?v"
  proof -
    have "of_int (min c1 c2) * (1 - t) \<le> of_int c1 * (1 - t)"
      "of_int (min c1 c2) * t \<le> of_int c2 * t"
      using assms by (simp_all add: mult_right_mono)
    then have "of_int (min c1 c2) * (1 - t) + of_int (min c1 c2) * t \<le> ?v" by linarith
    then show ?thesis by (simp add: algebra_simps)
  qed
  have hi: "?v \<le> of_int (max c1 c2)"
  proof -
    have "of_int c1 * (1 - t) \<le> of_int (max c1 c2) * (1 - t)"
      "of_int c2 * t \<le> of_int (max c1 c2) * t"
      using assms by (simp_all add: mult_right_mono)
    then have "?v \<le> of_int (max c1 c2) * (1 - t) + of_int (max c1 c2) * t" by linarith
    then show ?thesis by (simp add: algebra_simps)
  qed
  show ?thesis unfolding channel_between_def blend_channel_def
    using py_int_between[OF lo hi] .
qed

lemma blend_between:
  assumes "0 \<le> t" "t \<le> 1"
  shows "color_between (blend c1 c2 t) c1 c2"
  by (cases c1; cases c2) (simp add: blend_def color_between_def blend_channel_between[OF assms])

lemma get_rainbow_color_ge1:
  assumes "1 \<le> p"
  shows "get_rainbow_color p = Inr (148, 0, 211)"
proof -
  have "6 \<le> p * 6" using assms by simp
  then have "6 \<le> py_int (p * 6)" by (simp add: py_int_def le_floor_iff)
  then show ?thesis
    by (simp add: get_rainbow_color_def Let_def length_colors py_index_def) (simp add: colors_def)
qed

lemma get_rainbow_color_segment:
  assumes "0 \<le> k" "k < 6" "of_int k / 6 \<le> p" "p < (of_int k + 1) / 6"
  shows "get_rainbow_color p
         = Inr (blend (colors ! nat k) (colors ! nat (k + 1)) (p * 6 - of_int k))"
proof -
  have s: "of_int k \<le> p * 6" "p * 6 < of_int k + 1" using assms by (simp_all add: field_simps)
  moreover have "(0::real) \<le> of_int k" using assms(1) by simp
  ultimately have "0 \<le> p * 6" by linarith
  moreover have "\<lfloor>p * 6\<rfloor> = k" using s by (simp add: floor_eq_iff)
  ultimately have i: "py_int (p * 6) = k" by (simp add: py_int_def)
  show ?thesis using assms(1,2)
    by (simp add: get_rainbow_color_def Let_def length_colors i py_index_def err_bind_def)
qed

lemma segment_of_position:
  assumes "0 \<le> p" "p < 1"
  shows "0 \<le> \<lfloor>p * 6\<rfloor> \<and> \<lfloor>p * 6\<rfloor> < 6 \<and> of_int \<lfloor>p * 6\<rfloor> / 6 \<le> p \<and> p < (of_int \<lfloor>p * 6\<rfloor> + 1) / 6"
proof -
  have "0 \<le> p * 6" "p * 6 < 6" using assms by simp_all
  then have "0 \<le> \<lfloor>p * 6\<rfloor>" "\<lfloor>p * 6\<rfloor> < 6" by (simp_all add: floor_less_iff)
  moreover have "of_int \<lfloor>p * 6\<rfloor> \<le> p * 6" "p * 6 < of_int \<lfloor>p * 6\<rfloor> + 1" by linarith+
  ultimately show ?thesis by (simp add: field_simps)
qed

lemma rainbow_channels:
  assumes "0 \<le> p" "p \<le> 1"
  shows "\<exists>r g b. get_rainbow_color p = Inr (r, g, b)
           \<and> 0 \<le> r \<and> r \<le> 255 \<and> 0 \<le> g \<and> g \<le> 255 \<and> 0 \<le> b \<and> b \<le> 255"
proof (cases "p < 1")
  case False
  then show ?thesis using get_rainbow_color_ge1[of p] by simp
next
  case True
  define k where "k = \<lfloor>p * 6\<rfloor>"
  have k: "0 \<le> k" "k < 6" "of_int k / 6 \<le> p" "p < (of_int k + 1) / 6"
    using segment_of_position[OF assms(1) True] by (simp_all add: k_def)
  have t: "0 \<le> p * 6 - of_int k" "p * 6 - of_int k \<le> 1" using k by (simp_all add: field_simps)
  have c: "color_between (blend (colors ! nat k) (colors ! nat (k + 1)) (p * 6 - of_int k))
             (colors ! nat k) (colors ! nat (k + 1))"
    by (rule blend_between[OF t])
  have "k = 0 \<or> k = 1 \<or> k = 2 \<or> k = 3 \<or> k = 4 \<or> k = 5" using k by presburger
  then show ?thesis using c get_rainbow_color_segment[OF k]
    by (auto simp: colors_def color_between_def channel_between_def split: prod.splits)
qed


subsection \<open>The stroke loop and the radial gradient\<close>


lemma rainbow_not_violet:
  assumes "0 \<le> p" "p < 1"
  shows "get_rainbow_color p \<noteq> Inr (148, 0, 211)"
proof -
  define k where "k = \<lfloor>p * 6\<rfloor>"
  define t where "t = p * 6 - of_int k"
  have k: "0 \<le> k" "k < 6" "of_int k / 6 \<le> p" "p < (of_int k + 1) / 6"
    using segment_of_position[OF assms] by (simp_all add: k_def)
  have t: "0 \<le> t" "t \<le> 1" "t < 1" using k by (simp_all add: t_def field_simps)
  have g: "get_rainbow_color p = Inr (blend (colors ! nat k) (colors ! nat (k + 1)) t)"
    using get_rainbow_color_segment[OF k] by (simp add: t_def)
  have c: "color_between (blend (colors ! nat k) (colors ! nat (k + 1)) t)
             (colors ! nat k) (colors ! nat (k + 1))"
    by (rule blend_between[OF t(1,2)])
  have last: "blend_channel 75 148 t < 148"
  proof -
    have "(75::real) * (1 - t) + 148 * t < 148" using t by simp
    moreover have "(0::real) \<le> 75 * (1 - t) + 148 * t" using t by simp
    ultimately show ?thesis by (simp add: blend_channel_def py_int_def floor_less_iff)
  qed
  have "k = 0 \<or> k = 1 \<or> k = 2 \<or> k = 3 \<or> k = 4 \<or> k = 5" using k by presburger
  then show ?thesis using c g last
    by (auto simp: colors_def color_between_def channel_between_def blend_def)
qed

lemma rainbow_total:
  assumes "0 \<le> p" "p < 1"
  shows "\<exists>c. get_rainbow_color p = Inr c"
  using rainbow_channels[of p] assms by auto

lemma set_stroke_indices:
  "i \<in> set (stroke_indices points) \<longleftrightarrow> 0 \<le> i \<and> i + 1 < int (length points)"
  by (auto simp: stroke_indices_def set_py_range)

lemma stroke_position_lt1:
  assumes "0 \<le> i" "i + 1 < int (length points)"
  shows "0 \<le> stroke_position points i \<and> stroke_position points i < 1"
proof -
  have "real_of_int i < real_of_int (int (length points))" using assms by linarith
  moreover have "(0::real) < real_of_int (int (length points))" using assms by linarith
  ultimately show ?thesis using assms(1) by (simp add: stroke_position_def)
qed

lemma header_of_stroke_copies:
  "header_of (foldl (stroke_copies p1 p2 c) img os) = header_of img"
  by (rule header_of_foldl)
     (simp add: stroke_copies_def Let_def header_of_draw_line split: prod.splits)

lemma stroke_segment_run:
  assumes "i \<in> set (stroke_indices points)"
  shows "\<exists>color. get_rainbow_color (stroke_position points i) = Inr color
           \<and> stroke_segment points lw img i
               = Inr (foldl (stroke_copies (points ! nat i) (points ! nat (i + 1)) (ink_rgb color))
                        img (stroke_offsets lw))"
proof -
  have i: "0 \<le> i" "i + 1 < int (length points)" using assms by (simp_all add: set_stroke_indices)
  obtain c where c: "get_rainbow_color (stroke_position points i) = Inr c"
    using rainbow_total stroke_position_lt1[OF i] by blast
  have "py_index points i = Inr (points ! nat i)"
    "py_index points (i + 1) = Inr (points ! nat (i + 1))"
    using i by (simp_all add: py_index_def)
  then show ?thesis using c by (simp add: stroke_segment_def err_bind_def)
qed

lemma stroke_loop_run:
  "\<exists>img'. for_each (stroke_segment points lw) img (stroke_indices points) = Inr img'
          \<and> header_of img' = header_of img"
proof -
  have "\<exists>img'. for_each (stroke_segment points lw) img xs = Inr img' \<and> header_of img' = header_of img"
    if "set xs \<subseteq> set (stroke_indices points)" for xs
    using that
  proof (induction xs arbitrary: img)
    case Nil
    then show ?case by simp
  next
    case (Cons x xs)
    then have "x \<in> set (stroke_indices points)" by simp
    from stroke_segment_run[OF this, of lw img]
    obtain img1 where s: "stroke_segment points lw img x = Inr img1"
      and h: "header_of img1 = header_of img"
      by (auto simp: header_of_stroke_copies)
    from Cons have "set xs \<subseteq> set (stroke_indices points)" by simp
    from Cons.IH[OF this, of img1] s h show ?case by auto
  qed
  then show ?thesis by blast
qed

lemma stroke_copies_log:
  "img_log (foldl (stroke_copies (x1, y1) (x2, y2) c) img os)
   = img_log img @ concat (map (\<lambda>off. [Line [(x1, y1 + of_int off), (x2, y2 + of_int off)] c 3,
                                         Line [(x1 + of_int off, y1), (x2 + of_int off, y2)] c 3]) os)"
  by (induction os arbitrary: img) (simp_all add: stroke_copies_def draw_line_def img_log_log_op)

lemma radial_pixel_header:
  "radial_pixel cx cy m c1 c2 y base x = Inr img \<Longrightarrow> header_of img = header_of base"
  by (auto simp: radial_pixel_def Let_def err_bind_def py_truediv_def putpixel_def
      header_of_log_op split: if_splits)

lemma radial_row_header:
  "radial_row sz cx cy m c1 c2 base y = Inr img \<Longrightarrow> header_of img = header_of base"
  unfolding radial_row_def
  by (rule for_each_header[where body="radial_pixel cx cy m c1 c2 y"]) (auto dest: radial_pixel_header)

lemma radial_loop_header:
  "for_each (radial_row sz cx cy m c1 c2) base ys = Inr img \<Longrightarrow> header_of img = header_of base"
  by (rule for_each_header[where body="radial_row sz cx cy m c1 c2"]) (auto dest: radial_row_header)

lemma radial_loop_total:
  assumes "m \<noteq> 0"
  shows "\<exists>img. for_each (radial_row sz cx cy m c1 c2) base ys = Inr img"
proof -
  have p: "radial_pixel cx cy m c1 c2 y b x
           = Inr (putpixel b (x, y) (ink_rgb (blend c1 c2
                   (sqrt (of_int ((x - cx)\<^sup>2 + (y - cy)\<^sup>2)) / m))))" for y b x
    using assms by (simp add: radial_pixel_def Let_def err_bind_def py_truediv_def)
  have r: "radial_row sz cx cy m c1 c2 b y
           = Inr (foldl (\<lambda>b x. putpixel b (x, y) (ink_rgb (blend c1 c2
                   (sqrt (of_int ((x - cx)\<^sup>2 + (y - cy)\<^sup>2)) / m)))) b (py_range sz))" for b y
    unfolding radial_row_def by (rule for_each_total) (simp add: p)
  have "for_each (radial_row sz cx cy m c1 c2) base ys
        = Inr (foldl (\<lambda>b y. foldl (\<lambda>b x. putpixel b (x, y) (ink_rgb (blend c1 c2
                   (sqrt (of_int ((x - cx)\<^sup>2 + (y - cy)\<^sup>2)) / m)))) b (py_range sz)) base ys)"
    by (rule for_each_total) (simp add: r)
  then show ?thesis by blast
qed

lemma max_radius_nonzero:
  assumes "2 \<le> sz"
  shows "sqrt (of_int ((sz div 2)\<^sup>2 + (sz div 2)\<^sup>2)) \<noteq> (0::real)"
proof -
  have "1 \<le> sz div 2" using assms by simp
  then have "0 < (sz div 2)\<^sup>2" by simp
  then have "0 < (sz div 2)\<^sup>2 + (sz div 2)\<^sup>2" by simp
  then have "(0::real) < of_int ((sz div 2)\<^sup>2 + (sz div 2)\<^sup>2)" by (simp only: of_int_0_less_iff)
  then show ?thesis by simp
qed

lemma create_gradient_background_radial_run:
  assumes "0 \<le> sz"
  shows "\<exists>r. create_gradient_background_radial sz c1 c2 s = (s @ [(Mode_RGB, (sz, sz))], r)
           \<and> (\<forall>img. r = Inr img \<longrightarrow> header_of img = (Mode_RGB, (sz, sz)))
           \<and> (2 \<le> sz \<longrightarrow> (\<exists>img. r = Inr img))"
proof -
  let ?b = "Image Mode_RGB (sz, sz) (ink_rgb c1) []"
  let ?m = "sqrt (of_int ((sz div 2)\<^sup>2 + (sz div 2)\<^sup>2)) :: real"
  let ?r = "for_each (radial_row sz (sz div 2) (sz div 2) ?m c1 c2) ?b (py_range sz)"
  have "create_gradient_background_radial sz c1 c2 s = (s @ [(Mode_RGB, (sz, sz))], ?r)"
    using assms
    by (simp add: create_gradient_background_radial_def pil_bind_def Image_new_def Let_def pil_lift_def)
  moreover have "header_of img = (Mode_RGB, (sz, sz))" if "?r = Inr img" for img
    using radial_loop_header[OF that] by (simp add: header_of_def)
  moreover have "\<exists>img. ?r = Inr img" if "2 \<le> sz"
    by (rule radial_loop_total[OF max_radius_nonzero[OF that]])
  ultimately show ?thesis by blast
qed

lemma create_gradient_background_radial_neg:
  "sz < 0 \<Longrightarrow> create_gradient_background_radial sz c1 c2 s = (s, Inl ValueError)"
  by (simp add: create_gradient_background_radial_def pil_bind_def Image_new_def)

lemma radial_size_1:
  "create_gradient_background_radial 1 c1 c2 [] = ([(Mode_RGB, (1, 1))], Inl ZeroDivisionError)"
  by (simp add: create_gradient_background_radial_def pil_bind_def Image_new_def Let_def
      pil_lift_def py_range_def upto.simps radial_row_def radial_pixel_def err_bind_def py_truediv_def)



lemma length_draw_infinity_symbol:
  "length (draw_infinity_symbol cx cy w h n) = nat n"
  by (simp add: draw_infinity_symbol_def length_py_range)

lemma length_icon_1024_points: "length icon_1024_points = 400"
  by (simp add: icon_1024_points_def length_draw_infinity_symbol)

lemma stroke_indices_eq: "stroke_indices points = map int [0..<length points - 1]"
  by (simp add: stroke_indices_def py_range_eq_map nat_diff_distrib')

lemma length_stroke_offsets: "0 \<le> lw \<Longrightarrow> length (stroke_offsets lw) = nat lw"
proof -
  assume "0 \<le> lw"
  have "lw div 2 - (- lw) div 2 = lw" by presburger
  then show ?thesis by (simp add: stroke_offsets_def py_range2_def)
qed

lemma length_pairs: "length (concat (map (\<lambda>x. [f x, g x]) xs)) = 2 * length xs"
  by (induction xs) simp_all





text \<open>
  C9. For every position \<open>p\<close> with \<open>0 \<le> p \<le> 1\<close>, \<^verbatim>\<open>get_rainbow_color(p)\<close> returns a
  colour, and each of its channels is an integer from 0 to 255.
\<close>

theorem get_rainbow_color_channels:
  assumes "0 \<le> p" "p \<le> 1"
  shows "\<exists>r g b. get_rainbow_color p = Inr (r, g, b)
           \<and> 0 \<le> r \<and> r \<le> 255 \<and> 0 \<le> g \<and> g \<le> 255 \<and> 0 \<le> b \<and> b \<le> 255"
  using assms by (rule rainbow_channels)

theorem get_rainbow_color_channels_witness:
  "\<exists>r g b. get_rainbow_color (1 / 2) = Inr (r, g, b)
           \<and> 0 \<le> r \<and> r \<le> 255 \<and> 0 \<le> g \<and> g \<le> 255 \<and> 0 \<le> b \<and> b \<le> 255"
  using get_rainbow_color_channels[of "1 / 2"] by simp


section \<open>The thick stroke renderer\<close>

text \<open>
  C10. The stroke loop of \<^verbatim>\<open>create_app_icon\<close> runs over \<open>i = 0, \<dots>, N - 2\<close> for \<open>N\<close>
  sampled points, so over the \<open>N - 1\<close> pairs \<open>(i, i + 1)\<close>; the index \<open>N - 1\<close>, whose
  segment would close the curve, is not among them. Segment \<open>i\<close> is drawn from point
  \<open>i\<close> to point \<open>i + 1\<close> in the colour of position \<open>i / N\<close>, which is below 1, and that
  colour is never the violet anchor \<open>(148, 0, 211)\<close>.
\<close>

theorem stroke_segments:
  "stroke_indices points = map int [0..<length points - 1]
   \<and> int (length points) - 1 \<notin> set (stroke_indices points)
   \<and> (i \<in> set (stroke_indices points) \<longrightarrow>
        0 \<le> i \<and> i + 1 < int (length points)
        \<and> stroke_position points i = of_int i / of_int (int (length points))
        \<and> stroke_position points i < 1
        \<and> get_rainbow_color (stroke_position points i) \<noteq> Inr (148, 0, 211)
        \<and> (\<exists>color. get_rainbow_color (stroke_position points i) = Inr color
              \<and> stroke_segment points lw img i
                  = Inr (foldl (stroke_copies (points ! nat i) (points ! nat (i + 1))
                                  (ink_rgb color)) img (stroke_offsets lw))))"
proof -
  have a: "int (length points) - 1 \<notin> set (stroke_indices points)"
    by (simp add: set_stroke_indices)
  have b: "0 \<le> i \<and> i + 1 < int (length points)
        \<and> stroke_position points i = of_int i / of_int (int (length points))
        \<and> stroke_position points i < 1
        \<and> get_rainbow_color (stroke_position points i) \<noteq> Inr (148, 0, 211)
        \<and> (\<exists>color. get_rainbow_color (stroke_position points i) = Inr color
              \<and> stroke_segment points lw img i
                  = Inr (foldl (stroke_copies (points ! nat i) (points ! nat (i + 1))
                                  (ink_rgb color)) img (stroke_offsets lw)))"
    if i: "i \<in> set (stroke_indices points)"
  proof -
    have r: "0 \<le> i" "i + 1 < int (length points)" using i by (simp_all add: set_stroke_indices)
    have p: "0 \<le> stroke_position points i" "stroke_position points i < 1"
      using stroke_position_lt1[OF r] by simp_all
    show ?thesis
      using r p rainbow_not_violet[OF p] stroke_segment_run[OF i, of lw img]
      by (simp add: stroke_position_def)
  qed
  show ?thesis using a b stroke_indices_eq[of points] by blast
qed

theorem stroke_segments_witness:
  "length icon_1024_points = 400
   \<and> length (stroke_indices icon_1024_points) = 399
   \<and> 399 \<notin> set (stroke_indices icon_1024_points)
   \<and> stroke_position icon_1024_points 398 = 199 / 200
   \<and> get_rainbow_color (199 / 200) \<noteq> Inr (148, 0, 211)"
proof -
  let ?img = "Image Mode_RGB (1024, 1024) (Rgb 147 112 219) []"
  have m: "398 \<in> set (stroke_indices icon_1024_points)"
    by (simp add: set_stroke_indices length_icon_1024_points)
  note t = stroke_segments[of icon_1024_points 398 81 ?img]
  from t have ix: "stroke_indices icon_1024_points = map int [0..<length icon_1024_points - 1]"
    and nl: "int (length icon_1024_points) - 1 \<notin> set (stroke_indices icon_1024_points)"
    by blast+
  from t m have p: "stroke_position icon_1024_points 398
                    = of_int 398 / of_int (int (length icon_1024_points))"
    and nv: "get_rainbow_color (stroke_position icon_1024_points 398) \<noteq> Inr (148, 0, 211)"
    by blast+
  have p': "stroke_position icon_1024_points 398 = 199 / 200"
    unfolding p by (simp add: length_icon_1024_points)
  have "length (stroke_indices icon_1024_points) = 399"
    unfolding ix by (simp add: length_icon_1024_points)
  moreover have "399 \<notin> set (stroke_indices icon_1024_points)"
    using nl by (simp add: length_icon_1024_points)
  ultimately show ?thesis using nv p' by (simp add: length_icon_1024_points)
qed

text \<open>
  C3, as the claim states it, fails. At size 1024 the line width is
  \<open>int(1024 * 0.08) = 81\<close> and the offsets are \<^verbatim>\<open>range(-41, 40)\<close>: \<open>-41\<close> is used, \<open>41\<close>
  is not, so the offsets are not symmetric about zero.
\<close>

theorem stroke_offsets_not_symmetric:
  "py_int (1024 * 0.08) = 81 \<and> - 41 \<in> set (stroke_offsets 81) \<and> 41 \<notin> set (stroke_offsets 81)"
  by (simp add: py_int_def stroke_offsets_def py_range2_def)

text \<open>
  C3, amended. For every consecutive pair of sampled points the renderer draws, for
  each offset of \<^verbatim>\<open>range(-line_width // 2, line_width // 2)\<close>, that is for the integers
  from \<open>(-line_width) // 2\<close> to \<open>line_width // 2 - 1\<close> (\<open>line_width\<close> of them), two line
  copies of width 3 in the segment's colour: first the segment shifted by the offset in
  y, then the segment shifted by the same offset in x.
\<close>

theorem stroke_copies_offsets:
  "stroke_offsets lw = [(- lw) div 2..lw div 2 - 1]
   \<and> (0 \<le> lw \<longrightarrow> length (stroke_offsets lw) = nat lw)
   \<and> (i \<in> set (stroke_indices points) \<longrightarrow>
        (\<exists>color img'. get_rainbow_color (stroke_position points i) = Inr color
           \<and> stroke_segment points lw img i = Inr img'
           \<and> img_log img' = img_log img @ concat (map
                 (\<lambda>off. [Line [(fst (points ! nat i), snd (points ! nat i) + of_int off),
                                (fst (points ! nat (i + 1)), snd (points ! nat (i + 1)) + of_int off)]
                             (ink_rgb color) 3,
                        Line [(fst (points ! nat i) + of_int off, snd (points ! nat i)),
                                (fst (points ! nat (i + 1)) + of_int off, snd (points ! nat (i + 1)))]
                             (ink_rgb color) 3])
                 (stroke_offsets lw))))"
proof -
  have c: "\<exists>color img'. get_rainbow_color (stroke_position points i) = Inr color
           \<and> stroke_segment points lw img i = Inr img'
           \<and> img_log img' = img_log img @ concat (map
                 (\<lambda>off. [Line [(fst (points ! nat i), snd (points ! nat i) + of_int off),
                                (fst (points ! nat (i + 1)), snd (points ! nat (i + 1)) + of_int off)]
                             (ink_rgb color) 3,
                        Line [(fst (points ! nat i) + of_int off, snd (points ! nat i)),
                                (fst (points ! nat (i + 1)) + of_int off, snd (points ! nat (i + 1)))]
                             (ink_rgb color) 3])
                 (stroke_offsets lw))"
    if i: "i \<in> set (stroke_indices points)"
  proof -
    obtain color where g: "get_rainbow_color (stroke_position points i) = Inr color"
      and s: "stroke_segment points lw img i
                = Inr (foldl (stroke_copies (points ! nat i) (points ! nat (i + 1))
                                (ink_rgb color)) img (stroke_offsets lw))"
      using stroke_segment_run[OF i, of lw img] by blast
    show ?thesis
      using g s stroke_copies_log[of "fst (points ! nat i)" "snd (points ! nat i)"
          "fst (points ! nat (i + 1))" "snd (points ! nat (i + 1))" "ink_rgb color" img "stroke_offsets lw"]
      by simp
  qed
  show ?thesis using c length_stroke_offsets[of lw] by (simp add: stroke_offsets_def py_range2_def)
qed

theorem stroke_copies_offsets_witness:
  "stroke_offsets 81 = [- 41..39] \<and> length (stroke_offsets 81) = 81
   \<and> (\<exists>img'. stroke_segment icon_1024_points 81 (Image Mode_RGB (1024, 1024) (Rgb 147 112 219) []) 0
                 = Inr img'
             \<and> length (img_log img') = 162)"
proof -
  have m: "0 \<in> set (stroke_indices icon_1024_points)"
    by (simp add: set_stroke_indices length_icon_1024_points)
  from stroke_copies_offsets[of 81 0 icon_1024_points "Image Mode_RGB (1024, 1024) (Rgb 147 112 219) []"] m
  obtain color img' where
    s: "stroke_segment icon_1024_points 81 (Image Mode_RGB (1024, 1024) (Rgb 147 112 219) []) 0 = Inr img'"
    and l: "img_log img' = img_log (Image Mode_RGB (1024, 1024) (Rgb 147 112 219) []) @ concat (map
                 (\<lambda>off. [Line [(fst (icon_1024_points ! nat 0), snd (icon_1024_points ! nat 0) + of_int off),
                                (fst (icon_1024_points ! nat (0 + 1)), snd (icon_1024_points ! nat (0 + 1)) + of_int off)]
                             (ink_rgb color) 3,
                        Line [(fst (icon_1024_points ! nat 0) + of_int off, snd (icon_1024_points ! nat 0)),
                                (fst (icon_1024_points ! nat (0 + 1)) + of_int off, snd (icon_1024_points ! nat (0 + 1)))]
                             (ink_rgb color) 3])
                 (stroke_offsets 81))"
    and o: "stroke_offsets 81 = [(- 81) div 2..81 div 2 - 1]" and n: "length (stroke_offsets 81) = nat 81"
    by auto
  have "length (img_log img') = 162" unfolding l by (simp add: length_pairs n)
  then show ?thesis using s o n by simp
qed


section \<open>The linear gradient\<close>


lemma gradient_channel_blend:
  assumes "h \<noteq> 0"
  shows "gradient_channel c1 c2 y h = blend_channel c1 c2 (of_int y / of_int h)"
proof -
  have "(of_int c1 + of_int ((c2 - c1) * y) / of_int h :: real)
        = of_int c1 * (1 - of_int y / of_int h) + of_int c2 * (of_int y / of_int h)"
    using assms by (simp add: field_simps)
  then show ?thesis by (simp only: gradient_channel_def blend_channel_def)
qed

lemma gradient_channel_between:
  assumes "1 \<le> h" "0 \<le> y" "y < h"
  shows "channel_between (gradient_channel c1 c2 y h) c1 c2"
proof -
  have "(0::real) \<le> of_int y / of_int h" "(of_int y / of_int h :: real) \<le> 1"
    using assms by simp_all
  from blend_channel_between[OF this] show ?thesis
    using assms by (simp add: gradient_channel_blend)
qed

lemma gradient_channel_monotone:
  assumes "1 \<le> h" "y \<le> y'"
  shows "channel_monotone (gradient_channel c1 c2 y h) (gradient_channel c1 c2 y' h) c1 c2"
proof (cases "c1 \<le> c2")
  case True
  then have "(c2 - c1) * y \<le> (c2 - c1) * y'" using assms(2) by (simp add: mult_left_mono)
  then have "(of_int ((c2 - c1) * y) :: real) \<le> of_int ((c2 - c1) * y')" by (simp only: of_int_le_iff)
  then have "(of_int ((c2 - c1) * y) / of_int h :: real) \<le> of_int ((c2 - c1) * y') / of_int h"
    using assms(1) by (simp add: divide_right_mono)
  then have "gradient_channel c1 c2 y h \<le> gradient_channel c1 c2 y' h"
    unfolding gradient_channel_def by (intro py_int_mono) simp
  then show ?thesis using True by (simp add: channel_monotone_def)
next
  case False
  then have "(c2 - c1) * y' \<le> (c2 - c1) * y" using assms(2) by (simp add: mult_left_mono_neg)
  then have "(of_int ((c2 - c1) * y') :: real) \<le> of_int ((c2 - c1) * y)" by (simp only: of_int_le_iff)
  then have "(of_int ((c2 - c1) * y') / of_int h :: real) \<le> of_int ((c2 - c1) * y) / of_int h"
    using assms(1) by (simp add: divide_right_mono)
  then have "gradient_channel c1 c2 y' h \<le> gradient_channel c1 c2 y h"
    unfolding gradient_channel_def by (intro py_int_mono) simp
  then show ?thesis using False by (simp add: channel_monotone_def)
qed

lemma gradient_channel_0: "gradient_channel c1 c2 0 h = c1"
  by (simp add: gradient_channel_def py_int_of_int)

lemma gradient_log:
  "foldl (gradient_scanline sz c1 c2) base ys
   = Image (img_mode base) (img_size base) (img_fill base)
       (img_log base @ map (\<lambda>y. Line [(0, of_int y), (of_int (fst sz), of_int y)]
                                   (ink_rgb (gradient_color sz c1 c2 y)) 0) ys)"
proof -
  have "gradient_scanline sz c1 c2
        = (\<lambda>im y. log_op im (Line [(0, of_int y), (of_int (fst sz), of_int y)]
                                   (ink_rgb (gradient_color sz c1 c2 y)) 0))"
    by (intro ext) (simp add: gradient_scanline_def draw_line_def)
  then show ?thesis by (simp only: foldl_log_op)
qed

text \<open>
  C5. In the vertical gradient of the pattern icon, for a canvas of height at least 1
  and any two endpoint colours, the colour of every scanline \<open>y\<close> in \<open>0, \<dots>, h - 1\<close> lies
  channel by channel between the two endpoint colours, and from a scanline to a later
  one each channel moves, weakly, from \<open>color1\<close> toward \<open>color2\<close>; scanline 0 has
  \<open>color1\<close> itself. The canvas holds exactly these scanlines, one line per \<open>y\<close>.
\<close>

theorem linear_gradient_monotone:
  assumes "0 \<le> w" "1 \<le> h" "0 \<le> y" "y \<le> y'" "y' < h"
  shows "color_between (gradient_color (w, h) color1 color2 y) color1 color2
   \<and> color_between (gradient_color (w, h) color1 color2 y') color1 color2
   \<and> color_monotone (gradient_color (w, h) color1 color2 y)
        (gradient_color (w, h) color1 color2 y') color1 color2
   \<and> gradient_color (w, h) color1 color2 0 = color1
   \<and> create_gradient_background (w, h) color1 color2 s
       = (s @ [(Mode_RGB, (w, h))],
          Inr (Image Mode_RGB (w, h) (ink_rgb color1)
                 (map (\<lambda>y. Line [(0, of_int y), (of_int w, of_int y)]
                               (ink_rgb (gradient_color (w, h) color1 color2 y)) 0)
                      (py_range h))))"
proof -
  obtain r1 g1 b1 r2 g2 b2 where c: "color1 = (r1, g1, b1)" "color2 = (r2, g2, b2)"
    by (cases color1; cases color2) auto
  have y: "y < h" "0 \<le> y'" using assms by simp_all
  have a: "color_between (gradient_color (w, h) color1 color2 y) color1 color2"
    by (simp add: c gradient_color_def color_between_def
        gradient_channel_between[OF assms(2,3) y(1)])
  have b: "color_between (gradient_color (w, h) color1 color2 y') color1 color2"
    by (simp add: c gradient_color_def color_between_def
        gradient_channel_between[OF assms(2) y(2) assms(5)])
  have m: "color_monotone (gradient_color (w, h) color1 color2 y)
        (gradient_color (w, h) color1 color2 y') color1 color2"
    by (simp add: c gradient_color_def color_monotone_def
        gradient_channel_monotone[OF assms(2,4)])
  have z: "gradient_color (w, h) color1 color2 0 = color1"
    by (simp add: c gradient_color_def gradient_channel_0)
  have r: "create_gradient_background (w, h) color1 color2 s
       = (s @ [(Mode_RGB, (w, h))],
          Inr (Image Mode_RGB (w, h) (ink_rgb color1)
                 (map (\<lambda>y. Line [(0, of_int y), (of_int w, of_int y)]
                               (ink_rgb (gradient_color (w, h) color1 color2 y)) 0)
                      (py_range h))))"
    using assms(1,2) by (simp add: create_gradient_background_run gradient_log)
  show ?thesis using a b m z r by simp
qed

theorem linear_gradient_monotone_witness:
  "gradient_color (20, 20) (58, 123, 213) (88, 86, 214) 0 = (58, 123, 213)
   \<and> gradient_color (20, 20) (58, 123, 213) (88, 86, 214) 19 = (86, 87, 213)
   \<and> color_between (86, 87, 213) (58, 123, 213) (88, 86, 214)
   \<and> color_monotone (58, 123, 213) (86, 87, 213) (58, 123, 213) (88, 86, 214)"
proof -
  have e: "gradient_color (20, 20) (58, 123, 213) (88, 86, 214) 19 = (86, 87, 213)"
    by (simp add: gradient_color_def gradient_channel_def py_int_def)
  note t = linear_gradient_monotone[of 20 20 0 19 "(58, 123, 213)" "(88, 86, 214)" "[]"]
  from t have z: "gradient_color (20, 20) (58, 123, 213) (88, 86, 214) 0 = (58, 123, 213)"
    by simp
  from t show ?thesis unfolding e z by simp
qed


section \<open>The lemniscate sampler\<close>









section \<open>Square canvases\<close>


lemma create_app_icon_neg: "sz < 0 \<Longrightarrow> create_app_icon sz s = (s, Inl ValueError)"
  by (simp add: create_app_icon_def create_gradient_background_radial_neg pil_bind_def)

lemma create_app_icon_run:
  assumes sz: "0 \<le> sz"
  shows "(\<exists>e. create_app_icon sz s = (s @ [(Mode_RGB, (sz, sz))], Inl e))
       \<or> (\<exists>out. create_app_icon sz s = (s @ app_icon_record sz, Inr out)
               \<and> header_of out = (Mode_RGB, (sz, sz)))"
    and "2 \<le> sz \<Longrightarrow> \<exists>out. create_app_icon sz s = (s @ app_icon_record sz, Inr out)"
proof -
  let ?s1 = "s @ [(Mode_RGB, (sz, sz))]"
  obtain r where g: "create_gradient_background_radial sz (147, 112, 219) (75, 0, 130) s = (?s1, r)"
    and gh: "\<And>img. r = Inr img \<Longrightarrow> header_of img = (Mode_RGB, (sz, sz))"
    and gt: "2 \<le> sz \<Longrightarrow> \<exists>img. r = Inr img"
    using create_gradient_background_radial_run[OF sz, of "(147, 112, 219)" "(75, 0, 130)" s] by blast
  have main: "(\<exists>e. r = Inl e \<and> create_app_icon sz s = (?s1, Inl e))
       \<or> (\<exists>out. create_app_icon sz s = (s @ app_icon_record sz, Inr out)
               \<and> header_of out = (Mode_RGB, (sz, sz)))"
  proof (cases r)
    case (Inl e)
    have "create_app_icon sz s = (?s1, Inl e)"
      unfolding create_app_icon_def Let_def pil_bind_def
      by (simp only: g Inl prod.case sum.case)
    then show ?thesis using Inl by blast
  next
    case (Inr i1)
    have h1: "header_of i1 = (Mode_RGB, (sz, sz))" using gh[OF Inr] .
    let ?pts = "draw_infinity_symbol (sz div 2) (sz div 2) (py_int (of_int sz * 0.65))
                  (py_int (of_int sz * 0.3)) 400"
    let ?lw = "py_int (of_int sz * 0.08)"
    obtain i2 where l: "for_each (stroke_segment ?pts ?lw) i1 (stroke_indices ?pts) = Inr i2"
      and h2: "header_of i2 = header_of i1"
      using stroke_loop_run by blast
    obtain m where s2: "rounded_mask sz ?s1 = (?s1 @ [(Mode_L, (sz, sz))], Inr m)"
      and hm: "header_of m = (Mode_L, (sz, sz))"
      using rounded_mask_run[OF sz] by blast
    let ?s2 = "?s1 @ [(Mode_L, (sz, sz))]"
    let ?o = "Image Mode_RGBA (sz, sz) (Rgba 0 0 0 0) []"
    have s3: "Image_new Mode_RGBA (sz, sz) (Rgba 0 0 0 0) ?s2 = (?s2 @ [(Mode_RGBA, (sz, sz))], Inr ?o)"
      by (rule Image_new_run[OF sz sz])
    let ?s3 = "?s2 @ [(Mode_RGBA, (sz, sz))]"
    obtain o1 where p1: "paste ?o i2 (0, 0) None = Inr o1" and ho1: "header_of o1 = header_of ?o"
      using paste_None_run by blast
    have "img_size m = img_size o1" using hm ho1 by (simp add: header_of_def)
    then obtain o2 where p2: "putalpha o1 m = Inr o2" and ho2: "header_of o2 = header_of o1"
      using putalpha_run by blast
    let ?f = "Image Mode_RGB (sz, sz) (Rgb 255 255 255) []"
    have s4: "Image_new Mode_RGB (sz, sz) (Rgb 255 255 255) ?s3 = (?s3 @ [(Mode_RGB, (sz, sz))], Inr ?f)"
      by (rule Image_new_run[OF sz sz])
    let ?s4 = "?s3 @ [(Mode_RGB, (sz, sz))]"
    obtain f1 where p3: "paste ?f o2 (0, 0) (Some o2) = Inr f1" and hf: "header_of f1 = header_of ?f"
      using paste_Some_run[of o2 o2] by blast
    have "create_app_icon sz s = (?s4, Inr f1)"
      unfolding create_app_icon_def Let_def pil_bind_def pil_lift_def
      by (simp only: g Inr l s2 s3 s4 p1 p2 p3 prod.case sum.case)
    moreover have "?s4 = s @ app_icon_record sz" by (simp add: app_icon_record_def)
    moreover have "header_of f1 = (Mode_RGB, (sz, sz))" using hf by (simp add: header_of_def)
    ultimately show ?thesis by simp
  qed
  from main show "(\<exists>e. create_app_icon sz s = (s @ [(Mode_RGB, (sz, sz))], Inl e))
       \<or> (\<exists>out. create_app_icon sz s = (s @ app_icon_record sz, Inr out)
               \<and> header_of out = (Mode_RGB, (sz, sz)))" by blast
  show "\<exists>out. create_app_icon sz s = (s @ app_icon_record sz, Inr out)" if "2 \<le> sz"
    using main gt[OF that] by auto
qed

lemma square_icon_record_prefix: "square_record sz (icon_record_prefix sz)"
  by (simp add: square_record_def icon_record_prefix_def)

lemma square_icon_record: "square_record sz (icon_record sz)"
  by (simp add: square_record_def icon_record_def icon_record_prefix_def)

lemma square_app_icon_record: "square_record sz (app_icon_record sz)"
  by (simp add: square_record_def app_icon_record_def)

lemma create_icon_square:
  "square_record sz (fst (create_icon sz []))
   \<and> (\<forall>img. snd (create_icon sz []) = Inr img \<longrightarrow> img_size img = (sz, sz))"
proof (cases "sz < 0")
  case True
  then show ?thesis by (simp add: create_icon_neg square_record_def)
next
  case False
  then have "0 \<le> sz" by simp
  from create_icon_run[OF this, of "[]"] obtain out where
    r: "create_icon sz [] =
           (case glow_loop sz (glow_canvas sz) of
              Inl e \<Rightarrow> ([] @ icon_record_prefix sz, Inl e)
            | Inr g \<Rightarrow> ([] @ icon_record sz, Inr out))"
    and h: "header_of out = (Mode_RGBA, (sz, sz))" by blast
  show ?thesis
  proof (cases "glow_loop sz (glow_canvas sz)")
    case (Inl e)
    then show ?thesis using r by (simp add: square_icon_record_prefix)
  next
    case (Inr g)
    then show ?thesis using r h by (simp add: square_icon_record header_of_def)
  qed
qed

lemma create_icon_total:
  assumes "190 \<le> sz"
  shows "\<exists>img. create_icon sz [] = (icon_record sz, Inr img)"
proof -
  have "0 \<le> sz" using assms by simp
  from create_icon_run[OF this, of "[]"] show ?thesis
    by (auto simp: glow_loop_ok[OF assms])
qed

lemma create_app_icon_square:
  "square_record sz (fst (create_app_icon sz []))
   \<and> (\<forall>img. snd (create_app_icon sz []) = Inr img \<longrightarrow> img_size img = (sz, sz))"
proof (cases "sz < 0")
  case True
  then show ?thesis by (simp add: create_app_icon_neg square_record_def)
next
  case False
  then have "0 \<le> sz" by simp
  from create_app_icon_run(1)[OF this, of "[]"] show ?thesis
    by (auto simp: square_app_icon_record header_of_def) (simp add: square_record_def)
qed

text \<open>
  C8. For every requested size, every canvas that a run of either pipeline brings into
  being, up to its end or to the error that stops it, is a square of that size, and an
  image that is returned has dimensions \<open>(size, size)\<close>. The pattern icon does return
  (after 10 canvases) when \<open>size \<ge> 190\<close>, the infinity icon (after 4 canvases) when
  \<open>size \<ge> 2\<close>.
\<close>

theorem square_canvases:
  "square_record sz (fst (create_icon sz []))
   \<and> (\<forall>img. snd (create_icon sz []) = Inr img \<longrightarrow> img_size img = (sz, sz))
   \<and> (190 \<le> sz \<longrightarrow> (\<exists>img. create_icon sz [] = (icon_record sz, Inr img)))
   \<and> square_record sz (fst (create_app_icon sz []))
   \<and> (\<forall>img. snd (create_app_icon sz []) = Inr img \<longrightarrow> img_size img = (sz, sz))
   \<and> (2 \<le> sz \<longrightarrow> (\<exists>img. create_app_icon sz [] = (app_icon_record sz, Inr img)))"
  using create_icon_square[of sz] create_icon_total[of sz]
    create_app_icon_square[of sz] create_app_icon_run(2)[of sz "[]"]
  by simp

theorem square_canvases_witness:
  "(\<exists>img. create_icon 1024 [] = (icon_record 1024, Inr img) \<and> img_size img = (1024, 1024))
   \<and> square_record 1024 (icon_record 1024) \<and> length (icon_record 1024) = 10
   \<and> (\<exists>img. create_app_icon 1024 [] = (app_icon_record 1024, Inr img)
          \<and> img_size img = (1024, 1024))
   \<and> square_record 1024 (app_icon_record 1024) \<and> length (app_icon_record 1024) = 4"
proof -
  note t = square_canvases[of 1024]
  from t obtain a where a: "create_icon 1024 [] = (icon_record 1024, Inr a)" by auto
  from t obtain b where b: "create_app_icon 1024 [] = (app_icon_record 1024, Inr b)" by auto
  from t a have a1: "img_size a = (1024, 1024)" "square_record 1024 (icon_record 1024)" by auto
  from t b have b1: "img_size b = (1024, 1024)" "square_record 1024 (app_icon_record 1024)" by auto
  show ?thesis using a b a1 b1 by (simp add: icon_record_def icon_record_prefix_def app_icon_record_def)
qed

end
